theory Spec2Isabelle
  imports Main "HOL-Library.Char_ord" "HOL-Library.List_Lexorder" "HOL-Library.Multiset"
begin

section \<open>Masterblog API: the in-memory post store of backend_app.py\<close>

text \<open>
  The program is a Flask application over one module-level list \<open>POSTS\<close> of
  dictionaries. Each view function reads the global \<open>request\<close> and the list, may
  mutate the list, and returns \<open>jsonify(payload), status\<close>. The embedding passes the
  list explicitly: a view function takes the current list and returns its response
  together with the list afterwards.
\<close>

subsection \<open>JSON values, truthiness and dictionaries\<close>

text \<open>
  The values a decoded JSON body can hold. Numbers with a fractional part are not
  represented. A dictionary is kept as an association list in insertion order, read with
  \<open>map_of\<close>.
\<close>

datatype json =
    JNull
  | JBool bool
  | JInt int
  | JStr string
  | JArr "json list"
  | JObj "(string \<times> json) list"

type_synonym dict = "(string \<times> json) list"

text \<open>Python's truth value of an object, as \<open>if x\<close> and \<open>not x\<close> test it.\<close>

fun truthy :: "json \<Rightarrow> bool" where
  "truthy JNull = False"
| "truthy (JBool b) = b"
| "truthy (JInt n) = (n \<noteq> 0)"
| "truthy (JStr s) = (s \<noteq> [])"
| "truthy (JArr xs) = (xs \<noteq> [])"
| "truthy (JObj d) = (d \<noteq> [])"

text \<open>\<open>d.get(k)\<close>: the value stored under \<open>k\<close>, or \<open>None\<close>.\<close>

definition dict_get :: "dict \<Rightarrow> string \<Rightarrow> json" where
  "dict_get d k = (case map_of d k of None \<Rightarrow> JNull | Some v \<Rightarrow> v)"

text \<open>\<open>d[k] = v\<close>: overwrite in place when the key exists, append otherwise.\<close>

fun dict_set :: "dict \<Rightarrow> string \<Rightarrow> json \<Rightarrow> dict" where
  "dict_set [] k v = [(k, v)]"
| "dict_set ((k', v') # d) k v =
     (if k' = k then (k, v) # d else (k', v') # dict_set d k v)"

text \<open>
  The integer a JSON value compares equal to in Python, when there is one
  (\<open>True == 1\<close> and \<open>False == 0\<close>).
\<close>

fun json_num :: "json \<Rightarrow> int option" where
  "json_num (JInt n) = Some n"
| "json_num (JBool b) = Some (if b then 1 else 0)"
| "json_num _ = None"

text \<open>\<open>i == v\<close> for an integer \<open>i\<close>.\<close>

definition json_eq_int :: "json \<Rightarrow> int \<Rightarrow> bool" where
  "json_eq_int v i = (json_num v = Some i)"

subsection \<open>Strings\<close>

text \<open>
  A character is a code point below 256, and a string is compared code point by code
  point, as Python compares strings. \<open>str.lower()\<close> works character by character on
  such strings: it adds 32 to the capital letters \<open>A\<close> to \<open>Z\<close> (65 to 90) and to the
  accented capitals 192 to 222, the multiplication sign 215 apart, and leaves every
  other code point as it is. \<open>q in s\<close> is the substring test, and \<open>str(i)\<close> is the
  decimal rendering an f-string gives an integer.
\<close>

definition lower_char :: "char \<Rightarrow> char" where
  "lower_char c =
     (let n = (of_char c :: nat) in
      if (65 \<le> n \<and> n \<le> 90) \<or> (192 \<le> n \<and> n \<le> 222 \<and> n \<noteq> 215)
      then char_of (n + 32) else c)"

definition lower :: "string \<Rightarrow> string" where
  "lower s = map lower_char s"

fun is_prefix :: "string \<Rightarrow> string \<Rightarrow> bool" where
  "is_prefix [] s = True"
| "is_prefix (c # q) [] = False"
| "is_prefix (c # q) (c' # s) = (c = c' \<and> is_prefix q s)"

fun py_in :: "string \<Rightarrow> string \<Rightarrow> bool" where
  "py_in q [] = (q = [])"
| "py_in q (c # s) = (is_prefix q (c # s) \<or> py_in q s)"

definition digit_char :: "nat \<Rightarrow> char" where
  "digit_char d = char_of (48 + d)"

fun str_nat :: "nat \<Rightarrow> string" where
  "str_nat n =
     (if n < 10 then [digit_char n] else str_nat (n div 10) @ [digit_char (n mod 10)])"

declare str_nat.simps [simp del]

definition str_int :: "int \<Rightarrow> string" where
  "str_int i = (if i < 0 then CHR ''-'' # str_nat (nat (- i)) else str_nat (nat i))"

subsection \<open>Requests and responses\<close>

text \<open>
  What a view function reads of Flask's \<open>request\<close>: the method, the query parameters
  (\<open>request.args\<close>) and the decoded body (\<open>request.get_json()\<close>).
\<close>

record request =
  req_method :: string
  req_args :: "(string \<times> string) list"
  req_json :: json

text \<open>\<open>request.args.get(k, default)\<close>.\<close>

definition args_get :: "request \<Rightarrow> string \<Rightarrow> string \<Rightarrow> string" where
  "args_get r k dflt = (case map_of (req_args r) k of None \<Rightarrow> dflt | Some v \<Rightarrow> v)"

text \<open>
  A view function either returns a payload with a status, or an exception escapes it
  (\<open>KeyError\<close>, \<open>AttributeError\<close>, \<open>TypeError\<close>), which Flask answers with status 500
  whatever the exception's class.
\<close>

datatype failure = Exception_Raised

type_synonym response = "failure + json \<times> nat"

subsection \<open>The seed collection\<close>

definition POSTS :: "dict list" where
  "POSTS = [
   [(''id'', JInt 1), (''title'', JStr ''First post''),
    (''content'', JStr ''This is the first post.'')],
   [(''id'', JInt 2), (''title'', JStr ''Second post''),
    (''content'', JStr ''This is the second post.'')],
   [(''id'', JInt 3), (''title'', JStr ''Exploring Python''),
    (''content'', JStr ''Diving into the basics of Python and its versatility.'')],
   [(''id'', JInt 4), (''title'', JStr ''Learning Flask''),
    (''content'', JStr ''A beginner's guide to building web apps with Flask.'')],
   [(''id'', JInt 5), (''title'', JStr ''Understanding REST APIs''),
    (''content'', JStr ''Explaining the core principles behind RESTful APIs.'')],
   [(''id'', JInt 6), (''title'', JStr ''Working with JSON''),
    (''content'', JStr ''How to use JSON for data exchange between server and client.'')],
   [(''id'', JInt 7), (''title'', JStr ''Frontend vs Backend''),
    (''content'', JStr ''Discussing the differences between frontend and backend development.'')],
   [(''id'', JInt 8), (''title'', JStr ''Version Control 101''),
    (''content'', JStr ''An introduction to Git and why version control matters.'')],
   [(''id'', JInt 9), (''title'', JStr ''Debugging Tips''),
    (''content'', JStr ''Useful strategies to debug your code effectively.'')],
   [(''id'', JInt 10), (''title'', JStr ''Deploying Applications''),
    (''content'', JStr ''Steps to deploy your application in a production environment.'')],
   [(''id'', JInt 11), (''title'', JStr ''Intro to HTML''),
    (''content'', JStr ''Learn the basics of HTML for creating web pages.'')],
   [(''id'', JInt 12), (''title'', JStr ''CSS Styling''),
    (''content'', JStr ''A brief guide to styling web pages using CSS.'')],
   [(''id'', JInt 13), (''title'', JStr ''JavaScript Essentials''),
    (''content'', JStr ''Key concepts in JavaScript for dynamic web content.'')],
   [(''id'', JInt 14), (''title'', JStr ''Building Interactive UIs''),
    (''content'', JStr ''Techniques for making user interfaces engaging.'')],
   [(''id'', JInt 15), (''title'', JStr ''Responsive Design''),
    (''content'', JStr ''How to design web pages that look great on any device.'')],
   [(''id'', JInt 16), (''title'', JStr ''APIs in Action''),
    (''content'', JStr ''Examples of how APIs drive modern web applications.'')],
   [(''id'', JInt 17), (''title'', JStr ''Data Structures''),
    (''content'', JStr ''Understanding the fundamentals of data structures in programming.'')],
   [(''id'', JInt 18), (''title'', JStr ''Algorithm Basics''),
    (''content'', JStr ''An overview of common algorithms used in software development.'')],
   [(''id'', JInt 19), (''title'', JStr ''Coding Best Practices''),
    (''content'', JStr ''Tips for writing clean and maintainable code.'')],
   [(''id'', JInt 20), (''title'', JStr ''Introduction to Testing''),
    (''content'', JStr ''Why testing is crucial and how to get started with it.'')],
   [(''id'', JInt 21), (''title'', JStr ''Debugging Techniques''),
    (''content'', JStr ''Advanced techniques to troubleshoot and fix code issues.'')],
   [(''id'', JInt 22), (''title'', JStr ''Learning by Doing''),
    (''content'', JStr ''The importance of practical experience in mastering coding.'')]
  ]"

subsection \<open>sort_posts\<close>

text \<open>
  Python's \<open>sorted(xs, key=k, reverse=r)\<close>: a stable sort on the keys; with
  \<open>reverse=True\<close> the list is reversed, sorted stably and reversed again, so that
  elements with equal keys keep their original order in both directions.
\<close>

definition py_sorted :: "('a \<Rightarrow> 'k::linorder) \<Rightarrow> bool \<Rightarrow> 'a list \<Rightarrow> 'a list" where
  "py_sorted key reverse xs =
     (if reverse then rev (sort_key key (rev xs)) else sort_key key xs)"

text \<open>The key function \<open>lambda post: post[sort_field].lower()\<close>.\<close>

definition post_key :: "string \<Rightarrow> dict \<Rightarrow> failure + string" where
  "post_key sort_field post =
     (case map_of post sort_field of
        Some (JStr s) \<Rightarrow> Inr (lower s)
      | _ \<Rightarrow> Inl Exception_Raised)"

text \<open>\<open>sorted\<close> computes the key of every element, in order, before it sorts.\<close>

fun keyed :: "string \<Rightarrow> dict list \<Rightarrow> failure + (string \<times> dict) list" where
  "keyed sort_field [] = Inr []"
| "keyed sort_field (post # posts) =
     (case post_key sort_field post of
        Inl e \<Rightarrow> Inl e
      | Inr k \<Rightarrow>
          (case keyed sort_field posts of
             Inl e \<Rightarrow> Inl e
           | Inr kps \<Rightarrow> Inr ((k, post) # kps)))"

definition sort_posts :: "dict list \<Rightarrow> string \<Rightarrow> string \<Rightarrow> failure + dict list" where
  "sort_posts posts sort_field direction =
     (let reverse = (direction = ''desc'') in
      case keyed sort_field posts of
        Inl e \<Rightarrow> Inl e
      | Inr kps \<Rightarrow> Inr (map snd (py_sorted fst reverse kps)))"

subsection \<open>handle_posts\<close>

text \<open>
  Lines 75 to 78: \<open>max(post['id'] for post in POSTS) + 1\<close>, or 1 on the empty list.
  The expression raises when a post has no \<open>id\<close> or an \<open>id\<close> that is not a number.
\<close>

fun post_ids :: "dict list \<Rightarrow> int list option" where
  "post_ids [] = Some []"
| "post_ids (post # posts) =
     (case map_of post ''id'' of
        None \<Rightarrow> None
      | Some v \<Rightarrow>
          (case json_num v of
             None \<Rightarrow> None
           | Some n \<Rightarrow> (case post_ids posts of None \<Rightarrow> None | Some ns \<Rightarrow> Some (n # ns))))"

definition next_id :: "dict list \<Rightarrow> failure + int" where
  "next_id posts =
     (case post_ids posts of
        None \<Rightarrow> Inl Exception_Raised
      | Some [] \<Rightarrow> Inr 1
      | Some (n # ns) \<Rightarrow> Inr (fold max ns n + 1))"

text \<open>A query parameter that is present and not the empty string.\<close>

fun arg_truthy :: "string option \<Rightarrow> bool" where
  "arg_truthy None = False"
| "arg_truthy (Some s) = (s \<noteq> [])"

definition handle_posts :: "request \<Rightarrow> dict list \<Rightarrow> response \<times> dict list" where
  "handle_posts r posts =
     (if req_method r = ''POST'' then
        (case next_id posts of
           Inl e \<Rightarrow> (Inl e, posts)
         | Inr n \<Rightarrow>
             (case req_json r of
                JObj new_post \<Rightarrow>
                  if \<not> truthy (dict_get new_post ''title'') then
                    (Inr (JObj [(''error'', JStr ''Missing Title'')], 400), posts)
                  else if \<not> truthy (dict_get new_post ''content'') then
                    (Inr (JObj [(''error'', JStr ''Missing Content'')], 400), posts)
                  else
                    (Inr (JObj [(''message'', JStr ''Created'')], 201),
                     posts @ [dict_set new_post ''id'' (JInt n)])
              | _ \<Rightarrow> (Inl Exception_Raised, posts)))
      else
        (let sort_field = map_of (req_args r) ''sort'';
             direction = lower (args_get r ''direction'' ''asc'')
         in
           if arg_truthy sort_field \<and> sort_field \<notin> {Some ''title'', Some ''content''} then
             (Inr (JObj [(''error'',
                JStr ''Invalid sort field. Allowed values are 'title' or 'content'.'')], 400),
              posts)
           else if direction \<notin> {''asc'', ''desc''} then
             (Inr (JObj [(''error'',
                JStr ''Invalid sort direction. Allowed values are 'asc' or 'desc'.'')], 400),
              posts)
           else
             (case sort_field of
                Some f \<Rightarrow>
                  if f \<noteq> [] then
                    (case sort_posts posts f direction of
                       Inl e \<Rightarrow> (Inl e, posts)
                     | Inr sorted_posts \<Rightarrow> (Inr (JArr (map JObj sorted_posts), 200), posts))
                  else (Inr (JArr (map JObj posts), 200), posts)
              | None \<Rightarrow> (Inr (JArr (map JObj posts), 200), posts))))"

subsection \<open>delete\<close>

text \<open>
  The loop \<open>for post in POSTS: if id == post['id']\<close>: the first post whose id equals
  \<open>id\<close>; reading \<open>post['id']\<close> raises on a post without one.
\<close>

fun find_post :: "int \<Rightarrow> dict list \<Rightarrow> failure + dict option" where
  "find_post i [] = Inr None"
| "find_post i (post # posts) =
     (case map_of post ''id'' of
        None \<Rightarrow> Inl Exception_Raised
      | Some v \<Rightarrow> if json_eq_int v i then Inr (Some post) else find_post i posts)"

definition delete :: "int \<Rightarrow> dict list \<Rightarrow> response \<times> dict list" where
  "delete i posts =
     (case find_post i posts of
        Inl e \<Rightarrow> (Inl e, posts)
      | Inr (Some post) \<Rightarrow>
          (Inr (JObj [(''message'',
             JStr (''Post with id '' @ str_int i @ '' has been deleted successfully.''))], 200),
           remove1 post posts)
      | Inr None \<Rightarrow>
          (Inr (JObj [(''error'',
             JStr (''Post with id '' @ str_int i @ '' was not found.''))], 404),
           posts))"

subsection \<open>update\<close>

text \<open>
  Lines 161 to 164 on the post found: \<open>new_details.get\<close> raises when the body is not a
  dictionary; a truthy \<open>title\<close> or \<open>content\<close> of the body is stored on the post.
\<close>

definition apply_details :: "json \<Rightarrow> dict \<Rightarrow> failure + dict" where
  "apply_details new_details post =
     (case new_details of
        JObj nd \<Rightarrow>
          (let post1 = (if truthy (dict_get nd ''title'')
                        then dict_set post ''title'' (dict_get nd ''title'') else post);
               post2 = (if truthy (dict_get nd ''content'')
                        then dict_set post1 ''content'' (dict_get nd ''content'') else post1)
           in Inr post2)
      | _ \<Rightarrow> Inl Exception_Raised)"

fun update_loop :: "int \<Rightarrow> json \<Rightarrow> dict list \<Rightarrow> response \<times> dict list" where
  "update_loop i new_details [] =
     (Inr (JObj [(''error'', JStr (''No post found with id '' @ str_int i @ ''.''))], 404), [])"
| "update_loop i new_details (post # posts) =
     (case map_of post ''id'' of
        None \<Rightarrow> (Inl Exception_Raised, post # posts)
      | Some v \<Rightarrow>
          if json_eq_int v i then
            (case apply_details new_details post of
               Inl e \<Rightarrow> (Inl e, post # posts)
             | Inr post' \<Rightarrow> (Inr (JObj post', 200), post' # posts))
          else
            (case update_loop i new_details posts of
               (resp, posts') \<Rightarrow> (resp, post # posts')))"

definition update :: "int \<Rightarrow> request \<Rightarrow> dict list \<Rightarrow> response \<times> dict list" where
  "update i r posts =
     (let new_details = req_json r in
      if \<not> truthy new_details then
        (Inr (JObj [(''error'', JStr ''Invalid or missing JSON data.'')], 400), posts)
      else update_loop i new_details posts)"

subsection \<open>search\<close>

text \<open>
  \<open>query and query in post[field].lower()\<close>: the field is read only when the query is
  not empty.
\<close>

definition query_matches :: "string \<Rightarrow> string \<Rightarrow> dict \<Rightarrow> failure + bool" where
  "query_matches query field post =
     (if query = [] then Inr False
      else (case map_of post field of
              Some (JStr s) \<Rightarrow> Inr (py_in query (lower s))
            | _ \<Rightarrow> Inl Exception_Raised))"

fun search_loop :: "string \<Rightarrow> string \<Rightarrow> dict list \<Rightarrow> failure + dict list" where
  "search_loop title_query content_query [] = Inr []"
| "search_loop title_query content_query (post # posts) =
     (case query_matches title_query ''title'' post of
        Inl e \<Rightarrow> Inl e
      | Inr title_matches \<Rightarrow>
          (case query_matches content_query ''content'' post of
             Inl e \<Rightarrow> Inl e
           | Inr content_matches \<Rightarrow>
               (case search_loop title_query content_query posts of
                  Inl e \<Rightarrow> Inl e
                | Inr list_of_posts \<Rightarrow>
                    Inr (if title_matches \<or> content_matches
                         then post # list_of_posts else list_of_posts))))"

definition search :: "request \<Rightarrow> dict list \<Rightarrow> response \<times> dict list" where
  "search r posts =
     (let title_query = lower (args_get r ''title'' []);
          content_query = lower (args_get r ''content'' [])
      in case search_loop title_query content_query posts of
           Inl e \<Rightarrow> (Inl e, posts)
         | Inr list_of_posts \<Rightarrow> (Inr (JArr (map JObj list_of_posts), 200), posts))"

subsection \<open>Sequences of calls\<close>

text \<open>The four routes of the application, and a run of calls against the shared list.\<close>

datatype api_call =
    Call_handle_posts request
  | Call_delete int
  | Call_update int request
  | Call_search request

fun serve :: "api_call \<Rightarrow> dict list \<Rightarrow> response \<times> dict list" where
  "serve (Call_handle_posts r) posts = handle_posts r posts"
| "serve (Call_delete i) posts = delete i posts"
| "serve (Call_update i r) posts = update i r posts"
| "serve (Call_search r) posts = search r posts"

fun run :: "api_call list \<Rightarrow> dict list \<Rightarrow> dict list" where
  "run [] posts = posts"
| "run (c # cs) posts = run cs (snd (serve c posts))"

subsection \<open>Well-formed collections\<close>

text \<open>
  \<open>has_ids posts ns\<close>: every post of the collection stores an integer under \<open>id\<close>,
  and \<open>ns\<close> lists these integers in collection order.
\<close>

definition has_ids :: "dict list \<Rightarrow> int list \<Rightarrow> bool" where
  "has_ids posts ns =
     (map (\<lambda>post. map_of post ''id'') posts = map (\<lambda>n. Some (JInt n)) ns)"

text \<open>
  Two records that agree on every key other than \<open>title\<close> and \<open>content\<close>.
\<close>

definition same_but_text :: "dict \<Rightarrow> dict \<Rightarrow> bool" where
  "same_but_text post post' =
     (\<forall>k. k \<noteq> ''title'' \<and> k \<noteq> ''content'' \<longrightarrow> map_of post' k = map_of post k)"

subsection \<open>Text fields and the search predicate\<close>

text \<open>
  \<open>has_text field post\<close>: the record stores a string under \<open>field\<close>;
  \<open>field_text field post\<close> is that string.
\<close>

definition has_text :: "string \<Rightarrow> dict \<Rightarrow> bool" where
  "has_text field post = (case map_of post field of Some (JStr s) \<Rightarrow> True | _ \<Rightarrow> False)"

definition field_text :: "string \<Rightarrow> dict \<Rightarrow> string" where
  "field_text field post = (case map_of post field of Some (JStr s) \<Rightarrow> s | _ \<Rightarrow> [])"



subsection \<open>The list call with both query parameters\<close>

text \<open>The request \<open>GET /api/posts?sort=sort_field&direction=direction\<close>.\<close>

definition list_request :: "string \<Rightarrow> string \<Rightarrow> request" where
  "list_request sort_field direction =
     \<lparr>req_method = ''GET'', req_args = [(''sort'', sort_field), (''direction'', direction)],
      req_json = JNull\<rparr>"

text \<open>The sort key of a record: the text under the sort field, in lower case.\<close>

definition text_key :: "string \<Rightarrow> dict \<Rightarrow> string" where
  "text_key sort_field post = lower (field_text sort_field post)"

section \<open>Properties\<close>

subsection \<open>Dictionaries, strings and identifiers\<close>

lemma map_of_dict_set: "map_of (dict_set d k v) = (map_of d)(k \<mapsto> v)"
  by (induction d k v rule: dict_set.induct) (auto simp: fun_eq_iff)



lemma has_ids_Nil [simp]: "has_ids [] ns \<longleftrightarrow> ns = []"
  by (auto simp: has_ids_def)

lemma has_ids_Cons:
  "has_ids (post # posts) ns \<longleftrightarrow>
     (\<exists>n ns'. ns = n # ns' \<and> map_of post ''id'' = Some (JInt n) \<and> has_ids posts ns')"
  by (cases ns) (auto simp: has_ids_def)

lemma has_ids_length: "has_ids posts ns \<Longrightarrow> length ns = length posts"
  unfolding has_ids_def by (metis length_map)

lemma has_ids_post_ids: "has_ids posts ns \<Longrightarrow> post_ids posts = Some ns"
  by (induction posts arbitrary: ns) (auto simp: has_ids_Cons)

lemma has_ids_append:
  "has_ids posts ns \<Longrightarrow> has_ids qs ms \<Longrightarrow> has_ids (posts @ qs) (ns @ ms)"
  by (simp add: has_ids_def)

lemma fold_max_Max: "fold max ns (n::int) = Max (set (n # ns))"
  by (rule Max.set_eq_fold [symmetric])

lemma next_id_has_ids:
  assumes "has_ids posts ns"
  shows "next_id posts = Inr (if ns = [] then 1 else Max (set ns) + 1)"
proof (cases ns)
  case Nil
  with assms have "post_ids posts = Some []" by (simp add: has_ids_post_ids)
  then show ?thesis using Nil by (simp add: next_id_def)
next
  case (Cons n ns')
  with assms have "post_ids posts = Some (n # ns')" by (simp add: has_ids_post_ids)
  then have "next_id posts = Inr (fold max ns' n + 1)" by (simp add: next_id_def)
  then show ?thesis unfolding fold_max_Max using Cons by simp
qed

lemma next_id_fresh:
  "has_ids posts ns \<Longrightarrow> n \<in> set ns \<Longrightarrow> n < (if ns = [] then 1 else Max (set ns) + 1)"
  by (auto simp: less_Suc_eq_le intro: le_less_trans [OF Max_ge, of _ _ "Max (set ns) + 1"])


lemma create_ok:
  assumes "has_ids posts ns" and "req_method r = ''POST''" and "req_json r = JObj body"
    and "truthy (dict_get body ''title'')" and "truthy (dict_get body ''content'')"
  shows "handle_posts r posts =
           (Inr (JObj [(''message'', JStr ''Created'')], 201),
            posts @ [dict_set body ''id'' (JInt (if ns = [] then 1 else Max (set ns) + 1))])"
  using assms next_id_has_ids [OF assms(1)] by (simp add: handle_posts_def)

lemma has_ids_POSTS:
  "has_ids POSTS [1, 2, 3, 4, 5, 6, 7, 8, 9, 10, 11, 12, 13, 14, 15, 16, 17, 18, 19, 20, 21, 22]"
  by (simp add: has_ids_def POSTS_def)


lemma str_int_999: "str_int 999 = ''999''"
  by code_simp

lemma lower_asc: "lower ''asc'' = ''asc''"
  by code_simp

lemma lower_desc: "lower ''desc'' = ''desc''"
  by code_simp

lemma lower_DESC: "lower ''DESC'' = ''desc''"
  by code_simp

lemma lower_bogus: "lower ''bogus'' = ''bogus''"
  by code_simp

lemma lower_char_code_point:
  "(of_char (lower_char c) :: nat) =
     (let n = of_char c in
      if (65 \<le> n \<and> n \<le> 90) \<or> (192 \<le> n \<and> n \<le> 222 \<and> n \<noteq> 215) then n + 32 else n)"
  by (simp add: lower_char_def Let_def)

lemma next_id_POSTS: "next_id POSTS = Inr 23"
  using next_id_has_ids [OF has_ids_POSTS] by simp

subsection \<open>Creating a post\<close>

text \<open>
  C3. On a collection whose records carry the integer ids \<open>ns\<close>, the id computed for a
  new record is \<open>max ns + 1\<close>, or 1 when the collection is empty; a create with a
  non-empty title and content stores the new record under that id, and the id is
  strictly greater than every id present before the create.
\<close>

theorem created_id_is_max_plus_one:
  assumes "has_ids posts ns" and "req_method r = ''POST''" and "req_json r = JObj body"
    and "truthy (dict_get body ''title'')" and "truthy (dict_get body ''content'')"
  shows "let nid = (if ns = [] then 1 else Max (set ns) + 1) in
           next_id posts = Inr nid \<and>
           (\<exists>post. snd (handle_posts r posts) = posts @ [post] \<and>
                   map_of post ''id'' = Some (JInt nid)) \<and>
           (\<forall>n \<in> set ns. n < nid)"
proof -
  have "snd (handle_posts r posts) =
          posts @ [dict_set body ''id'' (JInt (if ns = [] then 1 else Max (set ns) + 1))]"
    using create_ok [OF assms] by simp
  moreover have "map_of (dict_set body ''id'' (JInt (if ns = [] then 1 else Max (set ns) + 1))) ''id''
                   = Some (JInt (if ns = [] then 1 else Max (set ns) + 1))"
    by (simp add: map_of_dict_set)
  ultimately have "\<exists>post. snd (handle_posts r posts) = posts @ [post] \<and>
                   map_of post ''id'' = Some (JInt (if ns = [] then 1 else Max (set ns) + 1))"
    by blast
  moreover have "\<forall>n \<in> set ns. n < (if ns = [] then 1 else Max (set ns) + 1)"
    using next_id_fresh [OF assms(1)] by blast
  ultimately show ?thesis
    using next_id_has_ids [OF assms(1)] unfolding Let_def by blast
qed

theorem created_id_is_max_plus_one_witness:
  "has_ids POSTS [1, 2, 3, 4, 5, 6, 7, 8, 9, 10, 11, 12, 13, 14, 15, 16, 17, 18, 19, 20, 21, 22] \<and>
   next_id POSTS = Inr 23 \<and>
   (\<exists>post. snd (handle_posts
        \<lparr>req_method = ''POST'', req_args = [],
         req_json = JObj [(''title'', JStr ''X''), (''content'', JStr ''Y'')]\<rparr> POSTS) = POSTS @ [post] \<and>
      map_of post ''id'' = Some (JInt 23))"
  using created_id_is_max_plus_one [OF has_ids_POSTS,
      of "\<lparr>req_method = ''POST'', req_args = [],
          req_json = JObj [(''title'', JStr ''X''), (''content'', JStr ''Y'')]\<rparr>"
         "[(''title'', JStr ''X''), (''content'', JStr ''Y'')]"]
    has_ids_POSTS
  by (simp add: dict_get_def)

lemma not_truthy_missing:
  "map_of d k = None \<or> map_of d k = Some (JStr []) \<Longrightarrow> \<not> truthy (dict_get d k)"
  by (auto simp: dict_get_def)

text \<open>
  C4, as the specification words it, says that a successful create returns the created
  record with its id. The response is the payload \<open>{"message": "Created"}\<close> with
  status 201 and carries neither: on the empty collection the record is stored with
  id 1 and the payload is not that record.
\<close>

theorem create_returns_record_counterexample:
  "handle_posts
     \<lparr>req_method = ''POST'', req_args = [],
      req_json = JObj [(''title'', JStr ''X''), (''content'', JStr ''Y'')]\<rparr> []
   = (Inr (JObj [(''message'', JStr ''Created'')], 201),
      [[(''title'', JStr ''X''), (''content'', JStr ''Y''), (''id'', JInt 1)]])
   \<and> JObj [(''message'', JStr ''Created'')]
       \<noteq> JObj [(''title'', JStr ''X''), (''content'', JStr ''Y''), (''id'', JInt 1)]"
  by (simp add: handle_posts_def next_id_def dict_get_def)

text \<open>
  C4, amended. A create with a non-empty title and content assigns the id computed by
  \<open>next_id\<close>, appends the new record at the end of the collection, leaving the records
  before it and their order as they were, and answers \<open>{"message": "Created"}\<close> with
  status 201. The stored record is the body with the new id under \<open>id\<close>.
\<close>

theorem create_appends_and_signals:
  assumes "has_ids posts ns" and "req_method r = ''POST''" and "req_json r = JObj body"
    and "truthy (dict_get body ''title'')" and "truthy (dict_get body ''content'')"
  shows "\<exists>nid post.
           next_id posts = Inr nid \<and>
           handle_posts r posts =
             (Inr (JObj [(''message'', JStr ''Created'')], 201), posts @ [post]) \<and>
           map_of post = (map_of body)(''id'' \<mapsto> JInt nid)"
proof -
  let ?nid = "if ns = [] then 1 else Max (set ns) + 1"
  have "next_id posts = Inr ?nid"
    by (rule next_id_has_ids [OF assms(1)])
  moreover have "handle_posts r posts =
      (Inr (JObj [(''message'', JStr ''Created'')], 201),
       posts @ [dict_set body ''id'' (JInt ?nid)])"
    by (rule create_ok [OF assms])
  moreover have "map_of (dict_set body ''id'' (JInt ?nid)) = (map_of body)(''id'' \<mapsto> JInt ?nid)"
    by (rule map_of_dict_set)
  ultimately show ?thesis by blast
qed

theorem create_appends_and_signals_witness:
  "has_ids POSTS [1, 2, 3, 4, 5, 6, 7, 8, 9, 10, 11, 12, 13, 14, 15, 16, 17, 18, 19, 20, 21, 22] \<and>
   (\<exists>nid post.
      next_id POSTS = Inr nid \<and>
      handle_posts
        \<lparr>req_method = ''POST'', req_args = [],
         req_json = JObj [(''title'', JStr ''X''), (''content'', JStr ''Y'')]\<rparr> POSTS
      = (Inr (JObj [(''message'', JStr ''Created'')], 201), POSTS @ [post]) \<and>
      map_of post =
        (map_of [(''title'', JStr ''X''), (''content'', JStr ''Y'')])(''id'' \<mapsto> JInt nid))"
  using create_appends_and_signals [OF has_ids_POSTS,
      of "\<lparr>req_method = ''POST'', req_args = [],
          req_json = JObj [(''title'', JStr ''X''), (''content'', JStr ''Y'')]\<rparr>"
         "[(''title'', JStr ''X''), (''content'', JStr ''Y'')]"]
    has_ids_POSTS
  by (simp add: dict_get_def)

text \<open>
  C9, as the specification words it, speaks of every create call. A body that is not a
  JSON object has no title, yet the create does not answer \<open>Missing Title\<close>:
  \<open>new_post.get\<close> raises on it, so that the bodies \<open>null\<close> and \<open>[]\<close> end in an
  uncaught exception.
\<close>

theorem create_validation_order_counterexample:
  "handle_posts \<lparr>req_method = ''POST'', req_args = [], req_json = JNull\<rparr> POSTS
     = (Inl Exception_Raised, POSTS) \<and>
   handle_posts \<lparr>req_method = ''POST'', req_args = [], req_json = JArr []\<rparr> POSTS
     = (Inl Exception_Raised, POSTS)"
  by (simp add: handle_posts_def next_id_POSTS)

text \<open>
  C9, amended. For a create whose body is a JSON object, on a collection with integer
  ids: when the title is missing or empty (more generally: not truthy) the create fails
  with \<open>Missing Title\<close> and status 400 whatever the content; when the title is truthy
  and the content is missing or empty it fails with \<open>Missing Content\<close> and status 400.
  The collection is unchanged in both cases.
\<close>

theorem create_validation_order:
  assumes "has_ids posts ns" and "req_method r = ''POST''" and "req_json r = JObj body"
  shows "(\<not> truthy (dict_get body ''title'') \<longrightarrow>
            handle_posts r posts =
              (Inr (JObj [(''error'', JStr ''Missing Title'')], 400), posts)) \<and>
         (truthy (dict_get body ''title'') \<and> \<not> truthy (dict_get body ''content'') \<longrightarrow>
            handle_posts r posts =
              (Inr (JObj [(''error'', JStr ''Missing Content'')], 400), posts))"
  using assms next_id_has_ids [OF assms(1)] by (simp add: handle_posts_def)

theorem create_validation_order_witness:
  "has_ids POSTS [1, 2, 3, 4, 5, 6, 7, 8, 9, 10, 11, 12, 13, 14, 15, 16, 17, 18, 19, 20, 21, 22] \<and>
   handle_posts
     \<lparr>req_method = ''POST'', req_args = [],
      req_json = JObj [(''title'', JStr ''''), (''content'', JStr '''')]\<rparr> POSTS
   = (Inr (JObj [(''error'', JStr ''Missing Title'')], 400), POSTS) \<and>
   handle_posts
     \<lparr>req_method = ''POST'', req_args = [], req_json = JObj [(''title'', JStr ''X'')]\<rparr> POSTS
   = (Inr (JObj [(''error'', JStr ''Missing Content'')], 400), POSTS)"
  using create_validation_order [OF has_ids_POSTS,
      of "\<lparr>req_method = ''POST'', req_args = [],
          req_json = JObj [(''title'', JStr ''''), (''content'', JStr '''')]\<rparr>"
         "[(''title'', JStr ''''), (''content'', JStr '''')]"]
    create_validation_order [OF has_ids_POSTS,
      of "\<lparr>req_method = ''POST'', req_args = [], req_json = JObj [(''title'', JStr ''X'')]\<rparr>"
         "[(''title'', JStr ''X'')]"]
    has_ids_POSTS
  by (simp add: dict_get_def)

subsection \<open>Finding a post by id\<close>

lemma has_ids_split:
  assumes "has_ids posts ns" and "i \<in> set ns"
  shows "\<exists>pre post suf ns1 ns2.
           posts = pre @ post # suf \<and> ns = ns1 @ i # ns2 \<and> i \<notin> set ns1 \<and>
           has_ids pre ns1 \<and> has_ids suf ns2 \<and> map_of post ''id'' = Some (JInt i)"
proof -
  from assms(2) obtain ns1 ns2 where ns: "ns = ns1 @ i # ns2" and notin: "i \<notin> set ns1"
    by (auto dest: split_list_first)
  from assms(1) have "map (\<lambda>post. map_of post ''id'') posts
      = map (\<lambda>n. Some (JInt n)) ns1 @ Some (JInt i) # map (\<lambda>n. Some (JInt n)) ns2"
    by (simp add: has_ids_def ns)
  then obtain pre post suf where "posts = pre @ post # suf"
    and "map (\<lambda>post. map_of post ''id'') pre = map (\<lambda>n. Some (JInt n)) ns1"
    and "map_of post ''id'' = Some (JInt i)"
    and "map (\<lambda>post. map_of post ''id'') suf = map (\<lambda>n. Some (JInt n)) ns2"
    by (auto simp: map_eq_append_conv map_eq_Cons_conv)
  with ns notin show ?thesis unfolding has_ids_def by blast
qed

lemma has_ids_no_match:
  "has_ids posts ns \<Longrightarrow> i \<notin> set ns \<Longrightarrow> post \<in> set posts \<Longrightarrow>
     map_of post ''id'' \<noteq> Some (JInt i)"
  by (induction posts arbitrary: ns) (auto simp: has_ids_Cons)

lemma find_post_absent:
  "has_ids posts ns \<Longrightarrow> i \<notin> set ns \<Longrightarrow> find_post i posts = Inr None"
  by (induction posts arbitrary: ns) (auto simp: has_ids_Cons json_eq_int_def)

lemma find_post_first:
  "has_ids pre ns1 \<Longrightarrow> i \<notin> set ns1 \<Longrightarrow> map_of post ''id'' = Some (JInt i) \<Longrightarrow>
     find_post i (pre @ post # suf) = Inr (Some post)"
  by (induction pre arbitrary: ns1) (auto simp: has_ids_Cons json_eq_int_def)

lemma remove1_first:
  "has_ids pre ns1 \<Longrightarrow> i \<notin> set ns1 \<Longrightarrow> map_of post ''id'' = Some (JInt i) \<Longrightarrow>
     remove1 post (pre @ post # suf) = pre @ suf"
  using has_ids_no_match [of pre ns1 i post] by (auto simp: remove1_append)

lemma delete_present:
  assumes "has_ids pre ns1" and "i \<notin> set ns1" and "map_of post ''id'' = Some (JInt i)"
  shows "delete i (pre @ post # suf) =
           (Inr (JObj [(''message'',
              JStr (''Post with id '' @ str_int i @ '' has been deleted successfully.''))], 200),
            pre @ suf)"
  using find_post_first [OF assms] remove1_first [OF assms] by (simp add: delete_def)

lemma delete_absent:
  assumes "has_ids posts ns" and "i \<notin> set ns"
  shows "delete i posts =
           (Inr (JObj [(''error'',
              JStr (''Post with id '' @ str_int i @ '' was not found.''))], 404), posts)"
  using find_post_absent [OF assms] by (simp add: delete_def)



subsection \<open>Updating a post\<close>

lemma apply_details_obj:
  "\<exists>post'. apply_details (JObj nd) post = Inr post' \<and>
     (\<forall>k. map_of post' k =
        (if k = ''title'' \<and> truthy (dict_get nd ''title'') then Some (dict_get nd ''title'')
         else if k = ''content'' \<and> truthy (dict_get nd ''content'')
           then Some (dict_get nd ''content'')
         else map_of post k))"
  by (simp add: apply_details_def Let_def map_of_dict_set)

lemma apply_details_frame:
  assumes "apply_details new_details post = Inr post'"
    and "k \<noteq> ''title''" and "k \<noteq> ''content''"
  shows "map_of post' k = map_of post k"
proof (cases new_details)
  case (JObj nd)
  then show ?thesis
    using assms apply_details_obj [of nd post] by auto
qed (use assms in \<open>simp_all add: apply_details_def\<close>)

lemma same_but_text_refl: "list_all2 same_but_text posts posts"
  by (simp add: list_all2_refl same_but_text_def)

lemma update_loop_frame:
  "update_loop i new_details posts = (resp, posts') \<Longrightarrow> list_all2 same_but_text posts posts'"
proof (induction posts arbitrary: resp posts')
  case Nil
  then show ?case by simp
next
  case (Cons post posts)
  show ?case
  proof (cases "map_of post ''id''")
    case None
    with Cons.prems show ?thesis by (auto simp: same_but_text_refl)
  next
    case (Some v)
    show ?thesis
    proof (cases "json_eq_int v i")
      case True
      show ?thesis
      proof (cases "apply_details new_details post")
        case (Inl e)
        with Cons.prems Some True show ?thesis by (auto simp: same_but_text_refl)
      next
        case (Inr post')
        then have "same_but_text post post'"
          by (simp add: same_but_text_def apply_details_frame)
        with Cons.prems Some True Inr show ?thesis by (auto simp: same_but_text_refl)
      qed
    next
      case False
      obtain resp1 posts1 where rec: "update_loop i new_details posts = (resp1, posts1)"
        by (cases "update_loop i new_details posts")
      then have "list_all2 same_but_text posts posts1"
        by (rule Cons.IH)
      moreover have "same_but_text post post"
        by (simp add: same_but_text_def)
      ultimately show ?thesis
        using Cons.prems Some False rec by auto
    qed
  qed
qed

lemma update_frame: "list_all2 same_but_text posts (snd (update i r posts))"
proof (cases "truthy (req_json r)")
  case True
  then show ?thesis
    using update_loop_frame [of i "req_json r" posts "fst (update_loop i (req_json r) posts)"
        "snd (update_loop i (req_json r) posts)"]
    by (simp add: update_def)
next
  case False
  then show ?thesis by (simp add: update_def same_but_text_refl)
qed

lemma update_loop_absent:
  "has_ids posts ns \<Longrightarrow> i \<notin> set ns \<Longrightarrow>
     update_loop i new_details posts =
       (Inr (JObj [(''error'', JStr (''No post found with id '' @ str_int i @ ''.''))], 404),
        posts)"
  by (induction posts arbitrary: ns) (auto simp: has_ids_Cons json_eq_int_def)

lemma update_loop_first:
  "has_ids pre ns1 \<Longrightarrow> i \<notin> set ns1 \<Longrightarrow> map_of post ''id'' = Some (JInt i) \<Longrightarrow>
     apply_details new_details post = Inr post' \<Longrightarrow>
     update_loop i new_details (pre @ post # suf) = (Inr (JObj post', 200), pre @ post' # suf)"
  by (induction pre arbitrary: ns1) (auto simp: has_ids_Cons json_eq_int_def)

lemma update_nonempty_object:
  assumes "has_ids posts ns" and "req_json r = JObj nd" and "nd \<noteq> []"
  shows "(i \<notin> set ns \<longrightarrow>
            update i r posts =
              (Inr (JObj [(''error'',
                 JStr (''No post found with id '' @ str_int i @ ''.''))], 404), posts)) \<and>
         (i \<in> set ns \<longrightarrow>
            (\<exists>pre post suf post'.
               posts = pre @ post # suf \<and>
               (\<forall>p \<in> set pre. map_of p ''id'' \<noteq> Some (JInt i)) \<and>
               map_of post ''id'' = Some (JInt i) \<and>
               update i r posts = (Inr (JObj post', 200), pre @ post' # suf) \<and>
               map_of post' ''title'' =
                 (if truthy (dict_get nd ''title'') then Some (dict_get nd ''title'')
                  else map_of post ''title'') \<and>
               map_of post' ''content'' =
                 (if truthy (dict_get nd ''content'') then Some (dict_get nd ''content'')
                  else map_of post ''content'') \<and>
               map_of post' ''id'' = Some (JInt i)))"
proof (intro conjI impI)
  assume "i \<notin> set ns"
  then show "update i r posts =
      (Inr (JObj [(''error'', JStr (''No post found with id '' @ str_int i @ ''.''))], 404),
       posts)"
    using assms update_loop_absent [OF assms(1), of i "JObj nd"] by (simp add: update_def)
next
  assume "i \<in> set ns"
  then obtain pre post suf ns1 ns2 where posts: "posts = pre @ post # suf"
    and notin: "i \<notin> set ns1" and pre: "has_ids pre ns1"
    and post: "map_of post ''id'' = Some (JInt i)"
    using has_ids_split [OF assms(1)] by blast
  obtain post' where app: "apply_details (JObj nd) post = Inr post'"
    and fields: "\<forall>k. map_of post' k =
        (if k = ''title'' \<and> truthy (dict_get nd ''title'') then Some (dict_get nd ''title'')
         else if k = ''content'' \<and> truthy (dict_get nd ''content'')
           then Some (dict_get nd ''content'')
         else map_of post k)"
    using apply_details_obj [of nd post] by blast
  have "update i r posts = (Inr (JObj post', 200), pre @ post' # suf)"
    using assms update_loop_first [OF pre notin post app, of suf] by (simp add: update_def posts)
  moreover have "\<forall>p \<in> set pre. map_of p ''id'' \<noteq> Some (JInt i)"
    using has_ids_no_match [OF pre notin] by blast
  moreover have "map_of post' ''title'' =
      (if truthy (dict_get nd ''title'') then Some (dict_get nd ''title'')
       else map_of post ''title'')"
    using fields by simp
  moreover have "map_of post' ''content'' =
      (if truthy (dict_get nd ''content'') then Some (dict_get nd ''content'')
       else map_of post ''content'')"
    using fields by simp
  moreover have "map_of post' ''id'' = Some (JInt i)"
    using fields post by simp
  ultimately show "\<exists>pre post suf post'.
               posts = pre @ post # suf \<and>
               (\<forall>p \<in> set pre. map_of p ''id'' \<noteq> Some (JInt i)) \<and>
               map_of post ''id'' = Some (JInt i) \<and>
               update i r posts = (Inr (JObj post', 200), pre @ post' # suf) \<and>
               map_of post' ''title'' =
                 (if truthy (dict_get nd ''title'') then Some (dict_get nd ''title'')
                  else map_of post ''title'') \<and>
               map_of post' ''content'' =
                 (if truthy (dict_get nd ''content'') then Some (dict_get nd ''content'')
                  else map_of post ''content'') \<and>
               map_of post' ''id'' = Some (JInt i)"
    using posts post by blast
qed

text \<open>
  C5, as the specification words it, says that an update with a present, parseable
  body and an id that no record has answers NotFound. The empty JSON object is such a
  body, with both optional fields absent, and the guard \<open>if not new_details\<close> answers it
  with status 400 before any record is looked up.
\<close>

theorem update_empty_body_counterexample:
  "has_ids POSTS [1, 2, 3, 4, 5, 6, 7, 8, 9, 10, 11, 12, 13, 14, 15, 16, 17, 18, 19, 20, 21, 22] \<and>
   update 999 \<lparr>req_method = ''PUT'', req_args = [], req_json = JObj []\<rparr> POSTS =
     (Inr (JObj [(''error'', JStr ''Invalid or missing JSON data.'')], 400), POSTS)"
  using has_ids_POSTS by (simp add: update_def)

text \<open>
  C5, amended. An update whose body is the empty JSON object is answered with status
  400 and the message \<open>Invalid or missing JSON data.\<close>, whatever the id and whatever the
  collection, which is left unchanged: no record is looked up. For an update whose body
  is a non-empty JSON object, on a collection with integer ids: when no record has the
  id the answer is 404 and the collection is unchanged; otherwise the first record with
  the id is rewritten in place, a non-empty (truthy) title of the body replacing the
  stored title, a non-empty content the stored content, every other case leaving the
  field as it was, the stored id stays the same whatever the body holds, and the
  rewritten record is returned with status 200.
\<close>

theorem update_overwrites_supplied_fields:
  "(req_json r = JObj [] \<longrightarrow>
      update i r posts =
        (Inr (JObj [(''error'', JStr ''Invalid or missing JSON data.'')], 400), posts)) \<and>
   (has_ids posts ns \<and> req_json r = JObj nd \<and> nd \<noteq> [] \<longrightarrow>
      (i \<notin> set ns \<longrightarrow>
         update i r posts =
           (Inr (JObj [(''error'',
              JStr (''No post found with id '' @ str_int i @ ''.''))], 404), posts)) \<and>
      (i \<in> set ns \<longrightarrow>
         (\<exists>pre post suf post'.
            posts = pre @ post # suf \<and>
            (\<forall>p \<in> set pre. map_of p ''id'' \<noteq> Some (JInt i)) \<and>
            map_of post ''id'' = Some (JInt i) \<and>
            update i r posts = (Inr (JObj post', 200), pre @ post' # suf) \<and>
            map_of post' ''title'' =
              (if truthy (dict_get nd ''title'') then Some (dict_get nd ''title'')
               else map_of post ''title'') \<and>
            map_of post' ''content'' =
              (if truthy (dict_get nd ''content'') then Some (dict_get nd ''content'')
               else map_of post ''content'') \<and>
            map_of post' ''id'' = Some (JInt i))))"
proof -
  have "update i r posts =
      (Inr (JObj [(''error'', JStr ''Invalid or missing JSON data.'')], 400), posts)"
    if "req_json r = JObj []"
    using that by (simp add: update_def)
  then show ?thesis
    using update_nonempty_object [of posts ns r nd i] by blast
qed

theorem update_overwrites_supplied_fields_witness:
  "has_ids (take 2 POSTS) [1, 2] \<and>
   update 2 \<lparr>req_method = ''PUT'', req_args = [], req_json = JObj []\<rparr> (take 2 POSTS)
     = (Inr (JObj [(''error'', JStr ''Invalid or missing JSON data.'')], 400), take 2 POSTS) \<and>
   (\<exists>pre post suf post'.
      take 2 POSTS = pre @ post # suf \<and>
      map_of post ''id'' = Some (JInt 2) \<and>
      update 2 \<lparr>req_method = ''PUT'', req_args = [],
                req_json = JObj [(''title'', JStr ''New''), (''content'', JStr []),
                                 (''id'', JInt 7)]\<rparr> (take 2 POSTS)
        = (Inr (JObj post', 200), pre @ post' # suf) \<and>
      map_of post' ''title'' = Some (JStr ''New'') \<and>
      map_of post' ''content'' = map_of post ''content'' \<and>
      map_of post' ''id'' = Some (JInt 2)) \<and>
   update 999 \<lparr>req_method = ''PUT'', req_args = [],
                req_json = JObj [(''title'', JStr ''New''), (''content'', JStr []),
                                 (''id'', JInt 7)]\<rparr> (take 2 POSTS)
     = (Inr (JObj [(''error'', JStr ''No post found with id 999.'')], 404), take 2 POSTS)"
proof -
  let ?r = "\<lparr>req_method = ''PUT'', req_args = [],
             req_json = JObj [(''title'', JStr ''New''), (''content'', JStr []),
                              (''id'', JInt 7)]\<rparr>"
  let ?e = "\<lparr>req_method = ''PUT'', req_args = [], req_json = JObj []\<rparr>"
  let ?nd = "[(''title'', JStr ''New''), (''content'', JStr []), (''id'', JInt 7)]"
  have ids: "has_ids (take 2 POSTS) [1, 2]"
    by (simp add: has_ids_def POSTS_def)
  have "update 2 ?e (take 2 POSTS)
      = (Inr (JObj [(''error'', JStr ''Invalid or missing JSON data.'')], 400), take 2 POSTS)"
    using update_overwrites_supplied_fields [of ?e 2 "take 2 POSTS"] by simp
  moreover have "\<exists>pre post suf post'.
      take 2 POSTS = pre @ post # suf \<and>
      map_of post ''id'' = Some (JInt 2) \<and>
      update 2 ?r (take 2 POSTS) = (Inr (JObj post', 200), pre @ post' # suf) \<and>
      map_of post' ''title'' = Some (JStr ''New'') \<and>
      map_of post' ''content'' = map_of post ''content'' \<and>
      map_of post' ''id'' = Some (JInt 2)"
    using update_overwrites_supplied_fields [of ?r 2 "take 2 POSTS" "[1, 2]" ?nd] ids
    by (simp add: dict_get_def) blast
  moreover have "update 999 ?r (take 2 POSTS)
      = (Inr (JObj [(''error'', JStr ''No post found with id 999.'')], 404), take 2 POSTS)"
    using update_overwrites_supplied_fields [of ?r 999 "take 2 POSTS" "[1, 2]" ?nd] ids
    by (simp add: str_int_999)
  ultimately show ?thesis
    using ids by blast
qed

text \<open>
  C10. Whatever the id and the body, an update leaves the collection at its length,
  and every record keeps, under every key other than \<open>title\<close> and \<open>content\<close>, exactly
  what it stored before: a key of the body other than these two is never copied onto a
  record, a key already stored (an extra field kept from the create) is never dropped or
  rewritten, and no key is added.
\<close>

theorem update_touches_only_title_and_content:
  "list_all2
     (\<lambda>post post'. \<forall>k. k \<noteq> ''title'' \<and> k \<noteq> ''content'' \<longrightarrow> map_of post' k = map_of post k)
     posts (snd (update i r posts))"
  by (rule list_all2_mono [OF update_frame]) (simp add: same_but_text_def)

theorem update_touches_only_title_and_content_witness:
  "update 1 \<lparr>req_method = ''PUT'', req_args = [],
             req_json = JObj [(''title'', JStr ''X''), (''author'', JStr ''Q''),
                              (''id'', JInt 9), (''likes'', JInt 3)]\<rparr>
     [[(''title'', JStr ''T''), (''content'', JStr ''C''), (''author'', JStr ''Z''),
       (''id'', JInt 1)]]
   = (Inr (JObj [(''title'', JStr ''X''), (''content'', JStr ''C''), (''author'', JStr ''Z''),
                 (''id'', JInt 1)], 200),
      [[(''title'', JStr ''X''), (''content'', JStr ''C''), (''author'', JStr ''Z''),
        (''id'', JInt 1)]]) \<and>
   list_all2
     (\<lambda>post post'. \<forall>k. k \<noteq> ''title'' \<and> k \<noteq> ''content'' \<longrightarrow> map_of post' k = map_of post k)
     [[(''title'', JStr ''T''), (''content'', JStr ''C''), (''author'', JStr ''Z''),
       (''id'', JInt 1)]]
     [[(''title'', JStr ''X''), (''content'', JStr ''C''), (''author'', JStr ''Z''),
       (''id'', JInt 1)]]"
proof -
  let ?r = "\<lparr>req_method = ''PUT'', req_args = [],
             req_json = JObj [(''title'', JStr ''X''), (''author'', JStr ''Q''),
                              (''id'', JInt 9), (''likes'', JInt 3)]\<rparr>"
  let ?posts = "[[(''title'', JStr ''T''), (''content'', JStr ''C''), (''author'', JStr ''Z''),
                  (''id'', JInt 1)]]"
  let ?posts' = "[[(''title'', JStr ''X''), (''content'', JStr ''C''), (''author'', JStr ''Z''),
                   (''id'', JInt 1)]]"
  have run: "update 1 ?r ?posts = (Inr (JObj (hd ?posts'), 200), ?posts')"
    by (simp add: update_def apply_details_def dict_get_def json_eq_int_def)
  then have "snd (update 1 ?r ?posts) = ?posts'"
    by simp
  with update_touches_only_title_and_content [of ?posts 1 ?r] run show ?thesis
    by simp
qed

subsection \<open>The ids of the live collection\<close>

lemma handle_posts_GET_state:
  "req_method r \<noteq> ''POST'' \<Longrightarrow> snd (handle_posts r posts) = posts"
  by (simp add: handle_posts_def Let_def split: sum.splits option.splits)

lemma handle_posts_POST_state:
  "req_method r = ''POST'' \<Longrightarrow>
   snd (handle_posts r posts) = posts \<or>
   (\<exists>body nid. next_id posts = Inr nid \<and>
      snd (handle_posts r posts) = posts @ [dict_set body ''id'' (JInt nid)])"
  by (cases "next_id posts"; cases "req_json r") (auto simp: handle_posts_def)

lemma handle_posts_state:
  "snd (handle_posts r posts) = posts \<or>
   (\<exists>body nid. next_id posts = Inr nid \<and>
      snd (handle_posts r posts) = posts @ [dict_set body ''id'' (JInt nid)])"
  using handle_posts_GET_state [of r posts] handle_posts_POST_state [of r posts] by blast

lemma handle_posts_ids:
  assumes "has_ids posts ns" and "distinct ns"
  shows "\<exists>ns'. has_ids (snd (handle_posts r posts)) ns' \<and> distinct ns'"
proof -
  let ?nid = "if ns = [] then 1 else Max (set ns) + 1"
  consider "snd (handle_posts r posts) = posts"
    | body where "snd (handle_posts r posts) = posts @ [dict_set body ''id'' (JInt ?nid)]"
    using handle_posts_state [of r posts] next_id_has_ids [OF assms(1)] by auto
  then show ?thesis
  proof cases
    case 1
    with assms show ?thesis by auto
  next
    case 2
    have "has_ids [dict_set body ''id'' (JInt ?nid)] [?nid]"
      by (simp add: has_ids_def map_of_dict_set)
    then have "has_ids (snd (handle_posts r posts)) (ns @ [?nid])"
      unfolding 2 by (rule has_ids_append [OF assms(1)])
    moreover have "?nid \<notin> set ns"
      using next_id_fresh [OF assms(1), of ?nid] by auto
    then have "distinct (ns @ [?nid])"
      using assms(2) by simp
    ultimately show ?thesis by blast
  qed
qed

lemma delete_ids:
  assumes "has_ids posts ns" and "distinct ns"
  shows "\<exists>ns'. has_ids (snd (delete i posts)) ns' \<and> distinct ns'"
proof (cases "i \<in> set ns")
  case True
  then obtain pre post suf ns1 ns2 where posts: "posts = pre @ post # suf"
    and ns: "ns = ns1 @ i # ns2" and notin: "i \<notin> set ns1"
    and pre: "has_ids pre ns1" and suf: "has_ids suf ns2"
    and post: "map_of post ''id'' = Some (JInt i)"
    using has_ids_split [OF assms(1)] by blast
  have "snd (delete i posts) = pre @ suf"
    unfolding posts using delete_present [OF pre notin post, of suf] by simp
  moreover have "has_ids (pre @ suf) (ns1 @ ns2)"
    by (rule has_ids_append [OF pre suf])
  moreover have "distinct (ns1 @ ns2)"
    using assms(2) by (simp add: ns)
  ultimately show ?thesis by auto
next
  case False
  then have "snd (delete i posts) = posts"
    using delete_absent [OF assms(1)] by simp
  with assms show ?thesis by auto
qed

lemma same_but_text_ids:
  "list_all2 same_but_text posts posts' \<Longrightarrow> has_ids posts ns \<Longrightarrow> has_ids posts' ns"
proof (induction posts posts' arbitrary: ns rule: list_all2_induct)
  case Nil
  then show ?case by simp
next
  case (Cons post posts post' posts')
  from Cons.hyps(1) have "map_of post' ''id'' = map_of post ''id''"
    by (simp add: same_but_text_def)
  with Cons.prems Cons.IH show ?case
    by (auto simp: has_ids_Cons)
qed

lemma update_ids:
  assumes "has_ids posts ns"
  shows "has_ids (snd (update i r posts)) ns"
  by (rule same_but_text_ids [OF update_frame assms])

lemma search_state: "snd (search r posts) = posts"
  by (simp add: search_def Let_def split: sum.splits)

lemma serve_ids:
  assumes "has_ids posts ns" and "distinct ns"
  shows "\<exists>ns'. has_ids (snd (serve c posts)) ns' \<and> distinct ns'"
proof (cases c)
  case (Call_handle_posts r)
  then show ?thesis using handle_posts_ids [OF assms] by simp
next
  case (Call_delete i)
  then show ?thesis using delete_ids [OF assms] by simp
next
  case (Call_update i r)
  then show ?thesis using update_ids [OF assms(1)] assms(2) by auto
next
  case (Call_search r)
  then show ?thesis using assms by (auto simp: search_state)
qed

lemma run_ids:
  "has_ids posts ns \<Longrightarrow> distinct ns \<Longrightarrow> \<exists>ns'. has_ids (run calls posts) ns' \<and> distinct ns'"
proof (induction calls arbitrary: posts ns)
  case Nil
  then show ?case by auto
next
  case (Cons c calls)
  from serve_ids [OF Cons.prems] obtain ns1
    where "has_ids (snd (serve c posts)) ns1" and "distinct ns1" by blast
  then show ?case
    using Cons.IH by simp
qed

text \<open>
  C2. Start from the seed collection and serve any sequence of calls, to any of the
  four routes and with any arguments and bodies, so in particular any sequence of
  creates and deletes. In the collection that results, every record stores an integer
  id, and these ids are pairwise distinct. A prefix of a sequence of calls is a sequence
  of calls, so this holds after every operation.
\<close>

theorem ids_stay_distinct:
  "\<exists>ns. has_ids (run calls POSTS) ns \<and> distinct ns"
  by (rule run_ids [OF has_ids_POSTS]) simp

subsection \<open>Searching\<close>







lemma search_accented_capital:
  "search \<lparr>req_method = ''GET'',
           req_args = [(''title'', [CHR 0xE9, CHR ''c'', CHR ''o'', CHR ''l'', CHR ''e''])],
           req_json = JNull\<rparr>
     [[(''id'', JInt 1),
       (''title'', JStr [CHR 0xC9, CHR ''c'', CHR ''o'', CHR ''l'', CHR ''e'']),
       (''content'', JStr ''x'')]]
   = (Inr (JArr [JObj [(''id'', JInt 1),
                       (''title'', JStr [CHR 0xC9, CHR ''c'', CHR ''o'', CHR ''l'', CHR ''e'']),
                       (''content'', JStr ''x'')]], 200),
      [[(''id'', JInt 1),
        (''title'', JStr [CHR 0xC9, CHR ''c'', CHR ''o'', CHR ''l'', CHR ''e'']),
        (''content'', JStr ''x'')]])"
  by code_simp






subsection \<open>Listing: validation of the query parameters\<close>

text \<open>
  C8, as the specification words it, fails on three inputs. The direction is put in
  lower case before it is checked, so \<open>DESC\<close>, which is not one of \<open>asc\<close> and \<open>desc\<close>,
  is accepted. A \<open>sort\<close> parameter that is present but empty is treated as absent. When
  both parameters are invalid the answer names the sort field, not the direction.
\<close>

theorem list_validation_counterexample:
  "handle_posts \<lparr>req_method = ''GET'', req_args = [(''direction'', ''DESC'')],
                 req_json = JNull\<rparr> (take 2 POSTS)
     = (Inr (JArr (map JObj (take 2 POSTS)), 200), take 2 POSTS) \<and>
   handle_posts \<lparr>req_method = ''GET'', req_args = [(''sort'', [])],
                 req_json = JNull\<rparr> (take 2 POSTS)
     = (Inr (JArr (map JObj (take 2 POSTS)), 200), take 2 POSTS) \<and>
   handle_posts \<lparr>req_method = ''GET'',
                 req_args = [(''sort'', ''bogus''), (''direction'', ''bogus'')],
                 req_json = JNull\<rparr> (take 2 POSTS)
     = (Inr (JObj [(''error'',
          JStr ''Invalid sort field. Allowed values are 'title' or 'content'.'')], 400),
        take 2 POSTS)"
  by (simp add: handle_posts_def args_get_def lower_DESC lower_asc lower_bogus)

text \<open>
  C8, amended. For a list call: if \<open>sort\<close> is present, not empty and neither \<open>title\<close>
  nor \<open>content\<close>, the call fails with status 400 and the message about the sort field,
  whatever the direction; otherwise, if the direction, after defaulting to \<open>asc\<close> and
  conversion to lower case, is neither \<open>asc\<close> nor \<open>desc\<close>, the call fails with status
  400 and the message about the sort direction; if \<open>sort\<close> is absent or empty and the
  direction is valid, the collection is returned in insertion order. The collection is
  unchanged in every case.
\<close>

theorem list_validation:
  assumes "req_method r \<noteq> ''POST''"
  shows "(\<forall>f. map_of (req_args r) ''sort'' = Some f \<and> f \<noteq> [] \<and> f \<noteq> ''title'' \<and>
              f \<noteq> ''content'' \<longrightarrow>
            handle_posts r posts =
              (Inr (JObj [(''error'',
                 JStr ''Invalid sort field. Allowed values are 'title' or 'content'.'')], 400),
               posts)) \<and>
         (map_of (req_args r) ''sort'' \<in> {None, Some [], Some ''title'', Some ''content''} \<and>
          lower (args_get r ''direction'' ''asc'') \<notin> {''asc'', ''desc''} \<longrightarrow>
            handle_posts r posts =
              (Inr (JObj [(''error'',
                 JStr ''Invalid sort direction. Allowed values are 'asc' or 'desc'.'')], 400),
               posts)) \<and>
         (map_of (req_args r) ''sort'' \<in> {None, Some []} \<and>
          lower (args_get r ''direction'' ''asc'') \<in> {''asc'', ''desc''} \<longrightarrow>
            handle_posts r posts = (Inr (JArr (map JObj posts), 200), posts))"
  using assms
  by (cases "map_of (req_args r) ''sort''") (auto simp: handle_posts_def Let_def)

theorem list_validation_witness:
  "handle_posts \<lparr>req_method = ''GET'', req_args = [(''sort'', ''bogus'')],
                 req_json = JNull\<rparr> POSTS
     = (Inr (JObj [(''error'',
          JStr ''Invalid sort field. Allowed values are 'title' or 'content'.'')], 400),
        POSTS) \<and>
   handle_posts \<lparr>req_method = ''GET'',
                 req_args = [(''sort'', ''title''), (''direction'', ''bogus'')],
                 req_json = JNull\<rparr> POSTS
     = (Inr (JObj [(''error'',
          JStr ''Invalid sort direction. Allowed values are 'asc' or 'desc'.'')], 400),
        POSTS) \<and>
   handle_posts \<lparr>req_method = ''GET'', req_args = [(''direction'', ''DESC'')],
                 req_json = JNull\<rparr> POSTS
     = (Inr (JArr (map JObj POSTS), 200), POSTS)"
  using
    list_validation [of "\<lparr>req_method = ''GET'', req_args = [(''sort'', ''bogus'')],
                          req_json = JNull\<rparr>" POSTS]
    list_validation [of "\<lparr>req_method = ''GET'',
                          req_args = [(''sort'', ''title''), (''direction'', ''bogus'')],
                          req_json = JNull\<rparr>" POSTS]
    list_validation [of "\<lparr>req_method = ''GET'', req_args = [(''direction'', ''DESC'')],
                          req_json = JNull\<rparr>" POSTS]
  by (simp add: args_get_def lower_DESC lower_bogus)

subsection \<open>Sorting\<close>

lemma post_key_text: "has_text f post \<Longrightarrow> post_key f post = Inr (text_key f post)"
  by (auto simp: has_text_def post_key_def text_key_def field_text_def
      split: option.splits json.splits)

lemma keyed_text:
  "\<forall>post \<in> set posts. has_text f post \<Longrightarrow>
     keyed f posts = Inr (map (\<lambda>p. (text_key f p, p)) posts)"
  by (induction posts) (simp_all add: post_key_text)

lemma insort_key_decorate:
  "insort_key fst (g x, x) (map (\<lambda>p. (g p, p)) ys) = map (\<lambda>p. (g p, p)) (insort_key g x ys)"
  by (induction ys) simp_all

lemma sort_key_decorate:
  "sort_key fst (map (\<lambda>p. (g p, p)) xs) = map (\<lambda>p. (g p, p)) (sort_key g xs)"
  by (induction xs) (simp_all add: insort_key_decorate)

lemma undecorate: "map snd (map (\<lambda>p. (g p, p)) xs) = xs"
  by (simp add: comp_def)

lemma py_sorted_decorate:
  "map snd (py_sorted fst reverse (map (\<lambda>p. (g p, p)) xs)) = py_sorted g reverse xs"
proof (cases reverse)
  case True
  have "map snd (rev (sort_key fst (rev (map (\<lambda>p. (g p, p)) xs))))
      = rev (map snd (sort_key fst (map (\<lambda>p. (g p, p)) (rev xs))))"
    by (simp add: rev_map)
  also have "\<dots> = rev (sort_key g (rev xs))"
    by (simp only: sort_key_decorate undecorate)
  finally show ?thesis using True by (simp add: py_sorted_def)
next
  case False
  have "map snd (sort_key fst (map (\<lambda>p. (g p, p)) xs)) = sort_key g xs"
    by (simp only: sort_key_decorate undecorate)
  then show ?thesis using False by (simp add: py_sorted_def)
qed

lemma sort_posts_text:
  assumes "\<forall>post \<in> set posts. has_text f post"
  shows "sort_posts posts f direction = Inr (py_sorted (text_key f) (direction = ''desc'') posts)"
  by (simp add: sort_posts_def keyed_text [OF assms] py_sorted_decorate)

lemma handle_posts_list:
  assumes "f = ''title'' \<or> f = ''content''" and "\<forall>post \<in> set posts. has_text f post"
    and "lower direction = ''asc'' \<or> lower direction = ''desc''"
  shows "handle_posts (list_request f direction) posts =
           (Inr (JArr (map JObj (py_sorted (text_key f) (lower direction = ''desc'') posts)), 200),
            posts)"
proof -
  have sp: "sort_posts posts f d = Inr (py_sorted (text_key f) (d = ''desc'') posts)" for d
    by (rule sort_posts_text [OF assms(2)])
  have ne: "f \<noteq> []"
    using assms(1) by auto
  have valid: "(f \<noteq> ''title'' \<and> f \<noteq> ''content'') = False"
    using assms(1) by auto
  show ?thesis
    using assms(3)
    by (auto simp: handle_posts_def list_request_def args_get_def Let_def sp ne valid)
qed

lemma py_sorted_mset: "mset (py_sorted g reverse xs) = mset xs"
  by (simp add: py_sorted_def)

lemma py_sorted_asc_sorted: "sorted (map g (py_sorted g False xs))"
  by (simp add: py_sorted_def)

lemma py_sorted_desc_sorted: "sorted (rev (map g (py_sorted g True xs)))"
  by (simp add: py_sorted_def rev_map)

lemma py_sorted_stable:
  "filter (\<lambda>x. g x = k) (py_sorted g reverse xs) = filter (\<lambda>x. g x = k) xs"
proof (cases reverse)
  case True
  have "filter (\<lambda>x. g x = k) (rev (sort_key g (rev xs)))
      = rev (filter (\<lambda>x. g x = k) (sort_key g (rev xs)))"
    by (simp add: rev_filter)
  also have "\<dots> = rev (filter (\<lambda>x. g x = k) (rev xs))"
    by (simp only: sort_key_stable)
  also have "\<dots> = filter (\<lambda>x. g x = k) xs"
    by (simp add: rev_filter)
  finally show ?thesis using True by (simp add: py_sorted_def)
next
  case False
  then show ?thesis by (simp add: py_sorted_def sort_key_stable)
qed

lemma py_sorted_desc_rev: "py_sorted g True xs = rev (py_sorted g False (rev xs))"
  by (simp add: py_sorted_def)

lemma py_sorted_distinct_keys:
  assumes "distinct (map g xs)"
  shows "py_sorted g True xs = rev (py_sorted g False xs)"
proof -
  have "mset (rev xs) = mset (sort_key g xs)"
    by simp
  moreover have "inj_on g (set (rev xs))"
    using assms by (simp add: distinct_map)
  moreover have "sorted (map g (sort_key g xs))"
    by simp
  ultimately have "sort_key g (rev xs) = sort_key g xs"
    by (rule sort_key_inj_key_eq)
  then show ?thesis
    by (simp add: py_sorted_def)
qed


lemma sort_accented_capital_ties:
  "handle_posts (list_request ''title'' ''desc'')
     [[(''id'', JInt 1), (''title'', JStr [CHR 0xC9]), (''content'', JStr ''x'')],
      [(''id'', JInt 2), (''title'', JStr [CHR 0xE9]), (''content'', JStr ''y'')]]
   = (Inr (JArr
        [JObj [(''id'', JInt 1), (''title'', JStr [CHR 0xC9]), (''content'', JStr ''x'')],
         JObj [(''id'', JInt 2), (''title'', JStr [CHR 0xE9]), (''content'', JStr ''y'')]], 200),
      [[(''id'', JInt 1), (''title'', JStr [CHR 0xC9]), (''content'', JStr ''x'')],
       [(''id'', JInt 2), (''title'', JStr [CHR 0xE9]), (''content'', JStr ''y'')]])"
  by code_simp

text \<open>
  C1, as the specification words it, says that the descending list is the reversal of
  the ascending list, so that records with equal keys come out in reversed order.
  \<open>sorted(..., reverse=True)\<close> keeps records with equal keys in their insertion
  order: with the titles \<open>Hello\<close> and \<open>hello\<close>, whose keys are equal, both directions
  return the two records in insertion order, which is not the reversal.
\<close>

theorem desc_is_reversed_asc_counterexample:
  "handle_posts (list_request ''title'' ''asc'')
     [[(''id'', JInt 1), (''title'', JStr ''Hello''), (''content'', JStr ''x'')],
      [(''id'', JInt 2), (''title'', JStr ''hello''), (''content'', JStr ''y'')]]
   = (Inr (JArr
        [JObj [(''id'', JInt 1), (''title'', JStr ''Hello''), (''content'', JStr ''x'')],
         JObj [(''id'', JInt 2), (''title'', JStr ''hello''), (''content'', JStr ''y'')]], 200),
      [[(''id'', JInt 1), (''title'', JStr ''Hello''), (''content'', JStr ''x'')],
       [(''id'', JInt 2), (''title'', JStr ''hello''), (''content'', JStr ''y'')]]) \<and>
   handle_posts (list_request ''title'' ''desc'')
     [[(''id'', JInt 1), (''title'', JStr ''Hello''), (''content'', JStr ''x'')],
      [(''id'', JInt 2), (''title'', JStr ''hello''), (''content'', JStr ''y'')]]
   = (Inr (JArr
        [JObj [(''id'', JInt 1), (''title'', JStr ''Hello''), (''content'', JStr ''x'')],
         JObj [(''id'', JInt 2), (''title'', JStr ''hello''), (''content'', JStr ''y'')]], 200),
      [[(''id'', JInt 1), (''title'', JStr ''Hello''), (''content'', JStr ''x'')],
       [(''id'', JInt 2), (''title'', JStr ''hello''), (''content'', JStr ''y'')]]) \<and>
   [JObj [(''id'', JInt 1), (''title'', JStr ''Hello''), (''content'', JStr ''x'')],
    JObj [(''id'', JInt 2), (''title'', JStr ''hello''), (''content'', JStr ''y'')]]
   \<noteq> rev
    [JObj [(''id'', JInt 1), (''title'', JStr ''Hello''), (''content'', JStr ''x'')],
     JObj [(''id'', JInt 2), (''title'', JStr ''hello''), (''content'', JStr ''y'')]]"
  by code_simp

text \<open>
  C1, amended. On a collection whose records hold text under the sort field, both
  directions succeed and return a permutation of the collection, ascending in the
  lower-case key for \<open>asc\<close> and descending for \<open>desc\<close>. The sort is stable in both
  directions: the records that share a key come in insertion order in the ascending and
  in the descending list. The descending list is the reversal of the ascending list of
  the reversed collection, and it is the reversal of the ascending list of the
  collection itself whenever no two records have the same key.
\<close>

theorem desc_is_stable_descending_sort:
  assumes "f = ''title'' \<or> f = ''content''" and "\<forall>post \<in> set posts. has_text f post"
  shows "\<exists>asc desc.
           handle_posts (list_request f ''asc'') posts
             = (Inr (JArr (map JObj asc), 200), posts) \<and>
           handle_posts (list_request f ''desc'') posts
             = (Inr (JArr (map JObj desc), 200), posts) \<and>
           handle_posts (list_request f ''asc'') (rev posts)
             = (Inr (JArr (map JObj (rev desc)), 200), rev posts) \<and>
           mset asc = mset posts \<and> mset desc = mset posts \<and>
           sorted (map (text_key f) asc) \<and> sorted (rev (map (text_key f) desc)) \<and>
           (\<forall>k. filter (\<lambda>p. text_key f p = k) asc = filter (\<lambda>p. text_key f p = k) posts) \<and>
           (\<forall>k. filter (\<lambda>p. text_key f p = k) desc = filter (\<lambda>p. text_key f p = k) posts) \<and>
           (distinct (map (text_key f) posts) \<longrightarrow> desc = rev asc)"
proof -
  let ?asc = "py_sorted (text_key f) False posts"
  let ?desc = "py_sorted (text_key f) True posts"
  have rtext: "\<forall>post \<in> set (rev posts). has_text f post"
    using assms(2) by simp
  have "handle_posts (list_request f ''asc'') posts = (Inr (JArr (map JObj ?asc), 200), posts)"
    using handle_posts_list [OF assms, of "''asc''"] by (simp add: lower_asc)
  moreover have "handle_posts (list_request f ''desc'') posts
      = (Inr (JArr (map JObj ?desc), 200), posts)"
    using handle_posts_list [OF assms, of "''desc''"] by (simp add: lower_desc)
  moreover have "handle_posts (list_request f ''asc'') (rev posts)
      = (Inr (JArr (map JObj (rev ?desc)), 200), rev posts)"
    using handle_posts_list [OF assms(1) rtext, of "''asc''"]
    by (simp add: lower_asc py_sorted_desc_rev)
  moreover have "mset ?asc = mset posts" and "mset ?desc = mset posts"
    by (rule py_sorted_mset)+
  moreover have "sorted (map (text_key f) ?asc)"
    by (rule py_sorted_asc_sorted)
  moreover have "sorted (rev (map (text_key f) ?desc))"
    by (rule py_sorted_desc_sorted)
  moreover have "\<forall>k. filter (\<lambda>p. text_key f p = k) ?asc = filter (\<lambda>p. text_key f p = k) posts"
    by (simp add: py_sorted_stable)
  moreover have "\<forall>k. filter (\<lambda>p. text_key f p = k) ?desc = filter (\<lambda>p. text_key f p = k) posts"
    by (simp add: py_sorted_stable)
  moreover have "distinct (map (text_key f) posts) \<longrightarrow> ?desc = rev ?asc"
    by (simp add: py_sorted_distinct_keys)
  ultimately show ?thesis
    by blast
qed

lemma list_title_asc_3:
  "handle_posts (list_request ''title'' ''asc'') (take 3 POSTS)
     = (Inr (JArr (map JObj [POSTS ! 2, POSTS ! 0, POSTS ! 1]), 200), take 3 POSTS)"
  by code_simp

lemma title_keys_3: "distinct (map (text_key ''title'') (take 3 POSTS))"
  by code_simp

theorem desc_is_stable_descending_sort_witness:
  "list_all (has_text ''title'') (take 3 POSTS) \<and>
   distinct (map (text_key ''title'') (take 3 POSTS)) \<and>
   handle_posts (list_request ''title'' ''asc'') (take 3 POSTS)
     = (Inr (JArr (map JObj [POSTS ! 2, POSTS ! 0, POSTS ! 1]), 200), take 3 POSTS) \<and>
   handle_posts (list_request ''title'' ''desc'') (take 3 POSTS)
     = (Inr (JArr (map JObj [POSTS ! 1, POSTS ! 0, POSTS ! 2]), 200), take 3 POSTS)"
proof -
  have all_text: "\<forall>post \<in> set (take 3 POSTS). has_text ''title'' post"
    by (simp add: POSTS_def has_text_def)
  obtain asc desc
    where a: "handle_posts (list_request ''title'' ''asc'') (take 3 POSTS)
        = (Inr (JArr (map JObj asc), 200), take 3 POSTS)"
      and d: "handle_posts (list_request ''title'' ''desc'') (take 3 POSTS)
        = (Inr (JArr (map JObj desc), 200), take 3 POSTS)"
      and r: "distinct (map (text_key ''title'') (take 3 POSTS)) \<longrightarrow> desc = rev asc"
    using desc_is_stable_descending_sort [OF _ all_text] by blast
  have "inj JObj"
    by (simp add: inj_def)
  moreover have "map JObj asc = map JObj [POSTS ! 2, POSTS ! 0, POSTS ! 1]"
    using a list_title_asc_3 by simp
  ultimately have "asc = [POSTS ! 2, POSTS ! 0, POSTS ! 1]"
    by (simp only: inj_map_eq_map)
  with r title_keys_3 have "desc = [POSTS ! 1, POSTS ! 0, POSTS ! 2]"
    by simp
  with d all_text title_keys_3 list_title_asc_3 show ?thesis
    by (simp add: list_all_iff)
qed

end
